theory Spec2Isabelle
  imports Complex_Main "HOL-Library.Word" "HOL-Library.Signed_Division"
begin

unbundle bit_operations_syntax

section \<open>The time integration controller of MicroHH (timeloop.cxx)\<close>

subsection \<open>Data model\<close>

text \<open>
  C++ \<open>unsigned long\<close> (64 bits, as the checkpoint record fixes it) is \<open>64 word\<close>:
  \<open>+\<close> wraps, \<open>div\<close> and \<open>mod\<close> are the unsigned ones, \<open>\<le>\<close> compares unsigned.
  The \<open>int\<close> members that reach the checkpoint (\<open>iteration\<close>) or come from a
  narrowing cast (\<open>iotime\<close>) are \<open>32 word\<close>, read signed where the source compares
  them. The small \<open>int\<close> counters \<open>substep\<close>, \<open>rkorder\<close> and the grid indices never
  leave a few digits; they are HOL integers, with the truncating remainder \<open>smod\<close>
  for the C operator \<open>%\<close>.
\<close>

type_synonym ulong = "64 word"
type_synonym cint = "32 word"

text \<open>
  \<open>double\<close> arithmetic is not interpreted: the operations of the floating-point unit
  are a parameter of every function that computes with doubles. \<open>fconst q\<close> is the
  double a literal (or a quotient of two literals, which the compiler rounds once) denotes,
  \<open>of_ulong\<close> the cast \<open>(double)\<close> of an \<open>unsigned long\<close>, \<open>fless\<close> the comparison
  \<open><\<close>. Whatever is proved for all such parameters holds for IEEE binary64.
\<close>

record 'f fpu =
  fadd :: "'f \<Rightarrow> 'f \<Rightarrow> 'f"
  fsub :: "'f \<Rightarrow> 'f \<Rightarrow> 'f"
  fmul :: "'f \<Rightarrow> 'f \<Rightarrow> 'f"
  fdiv :: "'f \<Rightarrow> 'f \<Rightarrow> 'f"
  fless :: "'f \<Rightarrow> 'f \<Rightarrow> bool"
  fconst :: "rat \<Rightarrow> 'f"
  of_ulong :: "ulong \<Rightarrow> 'f"

text \<open>
  Exact arithmetic on the rationals, the instance at which concrete calls are evaluated.
  On operands and results that binary64 represents exactly (small integers and dyadic
  fractions) a correctly rounded operation returns the exact value, so that the two agree
  there.
\<close>

definition exact :: "rat fpu" where
  "exact = \<lparr> fadd = (+), fsub = (-), fmul = (*), fdiv = (/), fless = (<),
             fconst = (\<lambda>q. q), of_ulong = (\<lambda>w. of_nat (unat w)) \<rparr>"

text \<open>
  What ends a call other than its return. \<open>throw 1\<close> is \<open>Thrown\<close>, with the state
  the object (and, for the checkpoint codec, the file system) has at the throw. The
  undefined behaviours that the source can reach are values too: a remainder or quotient
  by zero, a read past a coefficient table, a field of \<open>at\<close> without its partner in
  \<open>ap\<close>, the use of a member that \<open>fread\<close> filled in part only.
\<close>

datatype ub = Div_by_zero | Out_of_bounds | Null_pointer | Short_read

datatype 's error = Thrown 's | Undefined ub

text \<open>The members of \<open>Timeloop\<close> that the operations below read or write.\<close>

record 'f timeloop =
  substep :: int
  rkorder :: int
  ifactor :: 'f
  adaptivestep :: bool
  loop :: bool
  time :: 'f
  dt :: 'f
  iteration :: cint
  iotime :: cint
  itime :: ulong
  idt :: ulong
  idtlim :: ulong
  iendtime :: ulong
  istarttime :: ulong
  isavetime :: ulong
  iiotimeprec :: ulong

subsection \<open>Queries and the time step\<close>

definition in_substep :: "'f timeloop \<Rightarrow> bool" where
  "in_substep st = (if 0 < substep st then True else False)"

text \<open>
  \<open>step_time\<close>: the quotient \<open>itime/iiotimeprec\<close> is undefined for a zero divisor; the
  cast to \<open>int\<close> keeps the low 32 bits; \<open>++iteration\<close> is taken in two's complement.
\<close>

definition step_time :: "'f fpu \<Rightarrow> 'f timeloop \<Rightarrow> ub + 'f timeloop" where
  "step_time F st =
     (if in_substep st then Inr st
      else
        let st1 = st\<lparr>time := fadd F (time st) (dt st)\<rparr>;
            st2 = st1\<lparr>itime := itime st1 + idt st1\<rparr>
        in if iiotimeprec st2 = 0 then Inl Div_by_zero
           else
             let st3 = st2\<lparr>iotime := ucast (itime st2 div iiotimeprec st2)\<rparr>;
                 st4 = st3\<lparr>iteration := iteration st3 + 1\<rparr>
             in Inr (if iendtime st4 \<le> itime st4 then st4\<lparr>loop := False\<rparr> else st4))"

text \<open>
  \<open>do_save\<close>: the argument \<open>wall\<close> is what \<open>master->at_wall_clock_limit()\<close> answers
  at this call. The conjunctions are evaluated left to right, so the remainder by
  \<open>iiotimeprec\<close> is always taken, the one by \<open>isavetime\<close> only when the first test
  fails. The result is the returned flag and the state.
\<close>

definition do_save :: "bool \<Rightarrow> 'f timeloop \<Rightarrow> ub + (bool \<times> 'f timeloop)" where
  "do_save wall st =
     (if iiotimeprec st = 0 then Inl Div_by_zero
      else if itime st mod iiotimeprec st = 0 \<and> \<not> in_substep st \<and> wall
        then Inr (True, st\<lparr>loop := False\<rparr>)
      else if isavetime st = 0 then Inl Div_by_zero
      else if itime st mod isavetime st = 0 \<and> iteration st \<noteq> 0 \<and> \<not> in_substep st
        then Inr (True, st)
      else Inr (False, st))"

definition is_finished :: "'f timeloop \<Rightarrow> bool" where
  "is_finished st = (\<not> loop st)"

definition set_time_step :: "'f fpu \<Rightarrow> 'f timeloop \<Rightarrow> 'f timeloop error + 'f timeloop" where
  "set_time_step F st =
     (if in_substep st then Inr st
      else if adaptivestep st then
        (if idt st = 0 then Inl (Thrown st)
         else
           let st1 = st\<lparr>idt := idtlim st\<rparr>
           in Inr (st1\<lparr>dt := fdiv F (of_ulong F (idt st1)) (ifactor st1)\<rparr>))
      else Inr st)"

definition is_stats_step :: "'f timeloop \<Rightarrow> bool" where
  "is_stats_step st =
     (if \<not> in_substep st \<and> \<not> (0 <s iteration st \<and> itime st = istarttime st)
      then True else False)"

subsection \<open>Interpolation in time\<close>

text \<open>
  The range-for with its \<open>break\<close>: \<open>index1\<close> counts the leading entries of
  \<open>timevec\<close> that \<open>time\<close> is not below.
\<close>

fun count_index1 :: "'f fpu \<Rightarrow> 'f \<Rightarrow> 'f list \<Rightarrow> int \<Rightarrow> int" where
  "count_index1 F tm [] index1 = index1"
| "count_index1 F tm (t # ts) index1 =
     (if fless F tm t then index1 else count_index1 F tm ts (index1 + 1))"

text \<open>
  The four outputs are returned in the order of the reference parameters:
  \<open>index0\<close>, \<open>index1\<close>, \<open>fac0\<close>, \<open>fac1\<close>. In the last branch
  \<open>0 < index1 < timevec.size()\<close>, so both reads of \<open>timevec\<close> are in range.
\<close>

definition get_interpolation_factors ::
  "'f fpu \<Rightarrow> 'f timeloop \<Rightarrow> 'f list \<Rightarrow> int \<times> int \<times> 'f \<times> 'f" where
  "get_interpolation_factors F st timevec =
     (let index1 = count_index1 F (time st) timevec 0
      in if index1 = 0 then (0, index1, fconst F 0, fconst F 1)
         else if index1 = int (length timevec) then
           (let index0 = index1 - 1 in (index0, index0, fconst F 1, fconst F 0))
         else
           (let index0 = index1 - 1;
                t0 = timevec ! nat index0;
                t1 = timevec ! nat index1
            in (index0, index1,
                fdiv F (fsub F t1 (time st)) (fsub F t1 t0),
                fdiv F (fsub F (time st) t0) (fsub F t1 t0))))"

subsection \<open>The Runge-Kutta substeps\<close>

text \<open>
  The coefficient tables, as the exact quotients the source writes. \<open>rk3subdt\<close> and
  \<open>rk3\<close> (and \<open>rk4subdt\<close> and \<open>rk4\<close>) carry the same \<open>cB\<close>.
\<close>

definition rk3_cA :: "rat list" where
  "rk3_cA = [0, - 5 / 9, - 153 / 128]"

definition rk3_cB :: "rat list" where
  "rk3_cB = [1 / 3, 15 / 16, 8 / 15]"

definition rk4_cA :: "rat list" where
  "rk4_cA = [0,
     - 567301805773 / 1357537059087,
     - 2404267990393 / 2016746695238,
     - 3550918686646 / 2091501179385,
     - 1275806237668 / 842570457699]"

definition rk4_cB :: "rat list" where
  "rk4_cB = [
     1432997174477 / 9575080441755,
     5161836677717 / 13612068292357,
     1720146321549 / 2090206949498,
     3134564353537 / 4481467310338,
     2277821191437 / 14882151754819]"

text \<open>Reading a table at an \<open>int\<close> index; past either end the read is undefined.\<close>

definition coef :: "rat list \<Rightarrow> int \<Rightarrow> ub + rat" where
  "coef tab i = (if 0 \<le> i \<and> i < int (length tab) then Inr (tab ! nat i) else Inl Out_of_bounds)"

definition rk3subdt :: "'f fpu \<Rightarrow> 'f timeloop \<Rightarrow> 'f \<Rightarrow> ub + 'f" where
  "rk3subdt F st dt' =
     (case coef rk3_cB (substep st) of
        Inl u \<Rightarrow> Inl u
      | Inr cB \<Rightarrow> Inr (fmul F (fconst F cB) dt'))"

definition rk4subdt :: "'f fpu \<Rightarrow> 'f timeloop \<Rightarrow> 'f \<Rightarrow> ub + 'f" where
  "rk4subdt F st dt' =
     (case coef rk4_cB (substep st) of
        Inl u \<Rightarrow> Inl u
      | Inr cB \<Rightarrow> Inr (fmul F (fconst F cB) dt'))"

definition get_sub_time_step :: "'f fpu \<Rightarrow> 'f timeloop \<Rightarrow> ub + 'f" where
  "get_sub_time_step F st =
     (if rkorder st = 3 then rk3subdt F st (dt st)
      else if rkorder st = 4 then rk4subdt F st (dt st)
      else Inr (fconst F 0))"

text \<open>The members of \<open>Grid\<close> that the kernels read.\<close>

record grid =
  icells :: int
  ijcells :: int
  istart :: int
  iend :: int
  jstart :: int
  jend :: int
  kstart :: int
  kend :: int

text \<open>
  A \<open>double*\<close> is the memory it points to, a value for every offset. The two arguments
  of a kernel are \<open>restrict\<close> pointers, so they are two separate arrays.
\<close>

type_synonym 'f array = "int \<Rightarrow> 'f"

text \<open>
  The offsets \<open>ijk\<close> that the three nested loops of a kernel visit, in the order they
  visit them.
\<close>

definition cells :: "grid \<Rightarrow> int list" where
  "cells g =
     [i + j * icells g + k * ijcells g.
        k \<leftarrow> [kstart g..kend g - 1], j \<leftarrow> [jstart g..jend g - 1], i \<leftarrow> [istart g..iend g - 1]]"

text \<open>
  \<open>rk3\<close>: a table is read inside the loop bodies only, so with no cell to visit nothing
  is read. The product \<open>cB[substep]*dt*at[ijk]\<close> associates to the left.
\<close>

definition rk3 ::
  "'f fpu \<Rightarrow> grid \<Rightarrow> 'f timeloop \<Rightarrow> 'f array \<Rightarrow> 'f array \<Rightarrow> 'f \<Rightarrow> ub + ('f array \<times> 'f array)" where
  "rk3 F g st a tend dt' =
     (if cells g = [] then Inr (a, tend)
      else
        case coef rk3_cB (substep st) of
          Inl u \<Rightarrow> Inl u
        | Inr cB \<Rightarrow>
            let a' = fold (\<lambda>ijk a. a(ijk := fadd F (a ijk)
                             (fmul F (fmul F (fconst F cB) dt') (tend ijk)))) (cells g) a;
                substepn = (substep st + 1) smod 3
            in case coef rk3_cA substepn of
                 Inl u \<Rightarrow> Inl u
               | Inr cA \<Rightarrow>
                   Inr (a', fold (\<lambda>ijk t. t(ijk := fmul F (t ijk) (fconst F cA)))
                               (cells g) tend))"

definition rk4 ::
  "'f fpu \<Rightarrow> grid \<Rightarrow> 'f timeloop \<Rightarrow> 'f array \<Rightarrow> 'f array \<Rightarrow> 'f \<Rightarrow> ub + ('f array \<times> 'f array)" where
  "rk4 F g st a tend dt' =
     (if cells g = [] then Inr (a, tend)
      else
        case coef rk4_cB (substep st) of
          Inl u \<Rightarrow> Inl u
        | Inr cB \<Rightarrow>
            let a' = fold (\<lambda>ijk a. a(ijk := fadd F (a ijk)
                             (fmul F (fmul F (fconst F cB) dt') (tend ijk)))) (cells g) a;
                substepn = (substep st + 1) smod 5
            in case coef rk4_cA substepn of
                 Inl u \<Rightarrow> Inl u
               | Inr cA \<Rightarrow>
                   Inr (a', fold (\<lambda>ijk t. t(ijk := fmul F (fconst F cA) (t ijk)))
                               (cells g) tend))"

text \<open>
  The two field maps of \<open>Fields\<close>: the tendencies \<open>at\<close>, which \<open>exec\<close> walks in key
  order, as the list of their entries, and the prognostic fields \<open>ap\<close>, which it looks
  up by name. A name without a field in \<open>ap\<close> gives a null pointer, which the kernel
  would dereference. (The name \<open>at\<close> is taken in HOL; the member is \<open>at_map\<close> here.)
\<close>

record 'f fields =
  ap :: "string \<rightharpoonup> 'f array"
  at_map :: "(string \<times> 'f array) list"

fun for_fields ::
  "('f array \<Rightarrow> 'f array \<Rightarrow> ub + ('f array \<times> 'f array)) \<Rightarrow> (string \<rightharpoonup> 'f array) \<Rightarrow>
   (string \<times> 'f array) list \<Rightarrow> ub + ((string \<rightharpoonup> 'f array) \<times> (string \<times> 'f array) list)" where
  "for_fields kern p [] = Inr (p, [])"
| "for_fields kern p ((name, tend) # rest) =
     (case p name of
        None \<Rightarrow> Inl Null_pointer
      | Some a \<Rightarrow>
          (case kern a tend of
             Inl u \<Rightarrow> Inl u
           | Inr (a', tend') \<Rightarrow>
               (case for_fields kern (p(name \<mapsto> a')) rest of
                  Inl u \<Rightarrow> Inl u
                | Inr (p', rest') \<Rightarrow> Inr (p', (name, tend') # rest'))))"

text \<open>\<open>exec\<close> (the host version): two independent tests of \<open>rkorder\<close>, one after the other.\<close>

definition exec ::
  "'f fpu \<Rightarrow> grid \<Rightarrow> 'f fields \<times> 'f timeloop \<Rightarrow> ub + ('f fields \<times> 'f timeloop)" where
  "exec F g = (\<lambda>(flds, st).
     case (if rkorder st = 3 then
             (case for_fields (\<lambda>a tend. rk3 F g st a tend (dt st)) (ap flds) (at_map flds) of
                Inl u \<Rightarrow> Inl u
              | Inr (p', t') \<Rightarrow>
                  Inr (flds\<lparr>ap := p', at_map := t'\<rparr>, st\<lparr>substep := (substep st + 1) smod 3\<rparr>))
           else Inr (flds, st)) of
       Inl u \<Rightarrow> Inl u
     | Inr (flds1, st1) \<Rightarrow>
         if rkorder st1 = 4 then
           (case for_fields (\<lambda>a tend. rk4 F g st1 a tend (dt st1)) (ap flds1) (at_map flds1) of
              Inl u \<Rightarrow> Inl u
            | Inr (p', t') \<Rightarrow>
                Inr (flds1\<lparr>ap := p', at_map := t'\<rparr>, st1\<lparr>substep := (substep st1 + 1) smod 5\<rparr>))
         else Inr (flds1, st1))"

text \<open>\<open>n\<close> calls of \<open>exec\<close> in a row, stopping at the first that does not return.\<close>

fun exec_times ::
  "nat \<Rightarrow> 'f fpu \<Rightarrow> grid \<Rightarrow> 'f fields \<times> 'f timeloop \<Rightarrow> ub + ('f fields \<times> 'f timeloop)" where
  "exec_times 0 F g s = Inr s"
| "exec_times (Suc n) F g s =
     (case exec F g s of Inl u \<Rightarrow> Inl u | Inr s' \<Rightarrow> exec_times n F g s')"

subsection \<open>The checkpoint codec\<close>

text \<open>
  The files of the working directory, by name, each a sequence of bytes. \<open>fopen\<close> with
  mode \<open>"wbx"\<close> returns \<open>NULL\<close> when the name is taken, with mode \<open>"rb"\<close> when it
  is not.
\<close>

type_synonym byte = "8 word"
type_synonym files = "string \<rightharpoonup> byte list"

text \<open>\<open>sprintf\<close> with \<open>%07d\<close>: decimal, the sign counted in the width of seven.\<close>

fun dec_digits :: "nat \<Rightarrow> string" where
  "dec_digits n =
     (if n < 10 then [char_of (48 + n)]
      else dec_digits (n div 10) @ [char_of (48 + n mod 10)])"

declare dec_digits.simps [simp del]

definition fmt_07d :: "int \<Rightarrow> string" where
  "fmt_07d n =
     (if n < 0
      then CHR ''-'' # replicate (6 - length (dec_digits (nat (- n)))) CHR ''0''
             @ dec_digits (nat (- n))
      else replicate (7 - length (dec_digits (nat n))) CHR ''0'' @ dec_digits (nat n))"

definition filename :: "int \<Rightarrow> string" where
  "filename starttime = ''time.'' @ fmt_07d starttime"

text \<open>
  \<open>fwrite\<close> and \<open>fread\<close> of one object of \<open>n\<close> bytes copy its memory, least
  significant byte first on the machines the solver runs on: byte \<open>i\<close> holds bits
  \<open>8 * i\<close> to \<open>8 * i + 7\<close>, and the bytes read back are the digits of the value to
  the base 256.
\<close>

definition fwrite_le :: "nat \<Rightarrow> 'a::len word \<Rightarrow> byte list" where
  "fwrite_le n w = map (\<lambda>i. ucast (drop_bit (8 * i) w)) [0..<n]"

definition fread_le :: "byte list \<Rightarrow> 'a::len word" where
  "fread_le bs = word_of_int (horner_sum uint (2 ^ 8) bs)"

text \<open>
  What a process sees of \<open>Master\<close>: its rank, and \<open>broadcast\<close>, whose root is
  rank 0, the coordinator. The root keeps the value it passes in; every other process
  holds the root's value after the call, which for that process is an input of the call.
\<close>

record master =
  mpiid :: int

definition broadcast :: "master \<Rightarrow> 'a \<Rightarrow> 'a \<Rightarrow> 'a" where
  "broadcast m from_root v = (if mpiid m = 0 then v else from_root)"

text \<open>The values the root passes to the broadcasts of \<open>save\<close> and \<open>load\<close>.\<close>

record from_root =
  root_nerror :: cint
  root_itime :: ulong
  root_idt :: ulong
  root_iteration :: cint

text \<open>
  \<open>save\<close>: the state is the file system and the object; a throw leaves both as they
  are at the throw.
\<close>

definition save ::
  "master \<Rightarrow> from_root \<Rightarrow> int \<Rightarrow> files \<times> 'f timeloop \<Rightarrow>
   (files \<times> 'f timeloop) error + (files \<times> 'f timeloop)" where
  "save m msg starttime = (\<lambda>(fs, st).
     let (nerror, fs') =
           (if mpiid m = 0 then
              (case fs (filename starttime) of
                 Some old \<Rightarrow> (1, fs)
               | None \<Rightarrow>
                   (0, fs(filename starttime \<mapsto>
                         fwrite_le 8 (itime st) @ fwrite_le 8 (idt st) @ fwrite_le 4 (iteration st))))
            else (0, fs))
     in if broadcast m (root_nerror msg) nerror \<noteq> 0 then Inl (Thrown (fs', st))
        else Inr (fs', st))"

text \<open>
  \<open>fread\<close> of one object of \<open>n\<close> bytes from the rest of a file: with \<open>n\<close> bytes
  left the object is read; at the end of the file nothing is stored; a partial object
  has an indeterminate value. What is returned with the outcome is the rest of the file.
\<close>

datatype 'a fread_result = Read 'a | At_eof | Partial_item

definition fread :: "nat \<Rightarrow> byte list \<Rightarrow> 'a::len word fread_result \<times> byte list" where
  "fread n bs =
     (if n \<le> length bs then (Read (fread_le (take n bs)), drop n bs)
      else if bs = [] then (At_eof, [])
      else (Partial_item, []))"

text \<open>
  The member that \<open>fread\<close> was given, after the call; \<open>load\<close> does not look at the
  count that \<open>fread\<close> returns, and uses the member whatever it is.
\<close>

fun assigned :: "'a fread_result \<Rightarrow> 'a \<Rightarrow> ub + 'a" where
  "assigned (Read v) old = Inr v"
| "assigned At_eof old = Inr old"
| "assigned Partial_item old = Inl Short_read"

text \<open>
  \<open>load\<close>: the three \<open>fread\<close> calls ask for 8, 8 and 4 bytes, one after the other.
\<close>

definition load ::
  "'f fpu \<Rightarrow> master \<Rightarrow> from_root \<Rightarrow> int \<Rightarrow> files \<times> 'f timeloop \<Rightarrow>
   (files \<times> 'f timeloop) error + (files \<times> 'f timeloop)" where
  "load F m msg starttime = (\<lambda>(fs, st).
     case (if mpiid m = 0 then
             (case fs (filename starttime) of
                None \<Rightarrow> Inr (1, st)
              | Some bytes \<Rightarrow>
                  let (r1, rest1) = fread 8 bytes;
                      (r2, rest2) = fread 8 rest1;
                      (r3, rest3) = fread 4 rest2
                  in (case (assigned r1 (itime st), assigned r2 (idt st),
                            assigned r3 (iteration st)) of
                        (Inr i, Inr d, Inr n) \<Rightarrow>
                          Inr (0, st\<lparr>itime := i, idt := d, iteration := n\<rparr>)
                      | _ \<Rightarrow> Inl Short_read))
           else Inr (0, st)) of
       Inl u \<Rightarrow> Inl (Undefined u)
     | Inr (nerror, st1) \<Rightarrow>
         if broadcast m (root_nerror msg) nerror \<noteq> 0 then Inl (Thrown (fs, st1))
         else
           let st2 = st1\<lparr>itime := broadcast m (root_itime msg) (itime st1)\<rparr>;
               st3 = st2\<lparr>idt := broadcast m (root_idt msg) (idt st2)\<rparr>;
               st4 = st3\<lparr>iteration := broadcast m (root_iteration msg) (iteration st3)\<rparr>;
               st5 = st4\<lparr>time := fdiv F (of_ulong F (itime st4)) (ifactor st4)\<rparr>
           in Inr (fs, st5\<lparr>dt := fdiv F (of_ulong F (idt st5)) (ifactor st5)\<rparr>))"

subsection \<open>Notions the properties are stated with\<close>

text \<open>Every tendency that \<open>exec\<close> walks has its prognostic field.\<close>

definition fields_paired :: "'f fields \<Rightarrow> bool" where
  "fields_paired flds = (fst ` set (at_map flds) \<subseteq> dom (ap flds))"

text \<open>
  The layout that \<open>Grid\<close> gives its arrays: a row of \<open>icells\<close> values holds the
  \<open>i\<close> range, a slab of \<open>ijcells\<close> values holds the rows of the \<open>j\<close> range.
\<close>

definition grid_wf :: "grid \<Rightarrow> bool" where
  "grid_wf g = (0 \<le> istart g \<and> iend g \<le> icells g \<and> 0 \<le> jstart g \<and>
                jend g * icells g \<le> ijcells g)"

text \<open>The substep counter after \<open>n\<close> calls of \<open>exec\<close>.\<close>

definition substep_after ::
  "nat \<Rightarrow> 'f fpu \<Rightarrow> grid \<Rightarrow> 'f fields \<times> 'f timeloop \<Rightarrow> ub + int" where
  "substep_after n F g s =
     (case exec_times n F g s of Inl u \<Rightarrow> Inl u | Inr (flds, st) \<Rightarrow> Inr (substep st))"

text \<open>
  The kernels leave \<open>cA[s] * at\<close> in the tendency array on entry to stage \<open>s\<close>, and the
  rest of the solver adds the new tendency to it. For a tendency that is the same \<open>f\<close> at
  every stage the array so holds \<open>w\<^sub>s * f\<close> at stage \<open>s\<close>, with
  \<open>w\<^sub>s = cA[s] * w\<^bsub>s-1\<^esub> + 1\<close>, and a full step adds \<open>dt * f\<close> times the sum of
  \<open>cB[s] * w\<^sub>s\<close> to the field.
\<close>

fun stage_weights :: "rat list \<Rightarrow> rat \<Rightarrow> rat list" where
  "stage_weights [] w = []"
| "stage_weights (cA # cAs) w = (cA * w + 1) # stage_weights cAs (cA * w + 1)"

definition step_weight :: "rat list \<Rightarrow> rat list \<Rightarrow> rat" where
  "step_weight cA cB = sum_list (map2 (*) cB (stage_weights cA 0))"

subsection \<open>A small configuration\<close>

text \<open>
  A run from time 0 to 10 s in steps of 1 s, saving every 5 s, on a grid of
  \<open>4 \<times> 4 \<times> 2\<close> cells with a halo of one cell in the two horizontal directions, with
  one prognostic field.
\<close>

definition demo :: "rat timeloop" where
  "demo = \<lparr> substep = 0, rkorder = 3, ifactor = 1000000000, adaptivestep = True,
            loop = True, time = 0, dt = 1, iteration = 0, iotime = 0, itime = 0,
            idt = 1000000000, idtlim = 1000000000, iendtime = 10000000000,
            istarttime = 0, isavetime = 5000000000, iiotimeprec = 1000000000 \<rparr>"

definition demo_grid :: grid where
  "demo_grid = \<lparr> icells = 4, ijcells = 16, istart = 1, iend = 3, jstart = 1, jend = 3,
                 kstart = 0, kend = 2 \<rparr>"

definition demo_fields :: "rat fields" where
  "demo_fields = \<lparr> ap = [''u'' \<mapsto> (\<lambda>ijk. 1)], at_map = [(''u'', \<lambda>ijk. 2)] \<rparr>"

definition rank0 :: master where
  "rank0 = \<lparr> mpiid = 0 \<rparr>"

definition no_msg :: from_root where
  "no_msg = \<lparr> root_nerror = 0, root_itime = 0, root_idt = 0, root_iteration = 0 \<rparr>"

section \<open>Properties\<close>

subsection \<open>Stepping inside a substep\<close>

text \<open>
  C7. With \<open>substep > 0\<close> a call of \<open>step_time\<close> returns at once: it ends normally
  and the whole state, so also \<open>time\<close>, \<open>itime\<close>, \<open>iteration\<close> and \<open>loop\<close>, is
  the one before the call.
\<close>

theorem step_time_in_substep_noop:
  "0 < substep st \<Longrightarrow> step_time F st = Inr st"
  by (simp add: step_time_def in_substep_def)

text \<open>The call at substep 2 of the small configuration.\<close>

theorem step_time_in_substep_noop_witness:
  "0 < substep (demo\<lparr>substep := 2\<rparr>) \<and>
   step_time exact (demo\<lparr>substep := 2\<rparr>) = Inr (demo\<lparr>substep := 2\<rparr>)"
  using step_time_in_substep_noop [of "demo\<lparr>substep := 2\<rparr>" exact] by simp

subsection \<open>Statistics steps\<close>

text \<open>
  C10. \<open>is_stats_step\<close> returns true exactly when the controller is not in a substep
  and it is not the case that both \<open>iteration > 0\<close> and \<open>itime == istarttime\<close>. The
  substep counter is never negative, and then "not in a substep" is \<open>substep == 0\<close>.
  In particular no statistics are made at the first full step after a restart, where
  \<open>iteration > 0\<close> and \<open>itime\<close> is still the start time.
\<close>

theorem is_stats_step_iff:
  "(is_stats_step st \<longleftrightarrow>
      \<not> in_substep st \<and> \<not> (0 <s iteration st \<and> itime st = istarttime st)) \<and>
   (0 \<le> substep st \<longrightarrow> (\<not> in_substep st \<longleftrightarrow> substep st = 0)) \<and>
   (0 <s iteration st \<and> itime st = istarttime st \<longrightarrow> \<not> is_stats_step st)"
  by (auto simp add: is_stats_step_def in_substep_def)

text \<open>A restart: seven iterations done, the time still the start time.\<close>

theorem is_stats_step_iff_witness:
  "0 \<le> substep (demo\<lparr>iteration := 7\<rparr>) \<and>
   0 <s iteration (demo\<lparr>iteration := 7\<rparr>) \<and>
   itime (demo\<lparr>iteration := 7\<rparr>) = istarttime (demo\<lparr>iteration := 7\<rparr>) \<and>
   \<not> in_substep (demo\<lparr>iteration := 7\<rparr>) \<and>
   \<not> is_stats_step (demo\<lparr>iteration := 7\<rparr>)"
  using is_stats_step_iff [of "demo\<lparr>iteration := 7\<rparr>"]
  by (simp add: demo_def word_sless_alt)

subsection \<open>Saving and the wall-clock limit\<close>

text \<open>
  C1, as stated, fails. With the wall-clock limit reported inside a substep, \<open>do_save\<close>
  returns false and leaves \<open>loop\<close> set; and at tick 0 with one iteration counted it
  returns true, since the test that guards the start is on \<open>iteration\<close>, not on the tick.
\<close>

theorem do_save_counterexample:
  "do_save True (demo\<lparr>substep := 1\<rparr>) = Inr (False, demo\<lparr>substep := 1\<rparr>) \<and>
   \<not> is_finished (demo\<lparr>substep := 1\<rparr>) \<and>
   itime (demo\<lparr>iteration := 1\<rparr>) = 0 \<and>
   do_save False (demo\<lparr>iteration := 1\<rparr>) = Inr (True, demo\<lparr>iteration := 1\<rparr>)"
  by (simp add: do_save_def in_substep_def is_finished_def demo_def)

text \<open>
  C1, amended. With nonzero \<open>iiotimeprec\<close> and \<open>isavetime\<close>, \<open>do_save\<close> returns, and
  it returns true exactly when the controller is not in a substep and either \<open>itime\<close>
  is a multiple of \<open>isavetime\<close> with \<open>iteration\<close> nonzero, or the wall-clock limit is
  reported and \<open>itime\<close> is a multiple of \<open>iiotimeprec\<close>. In the second case, and in no
  other, it clears \<open>loop\<close>: then it both returns true and makes \<open>is_finished\<close> true,
  and it never stops the loop without asking for a save.
\<close>

theorem do_save_spec:
  assumes "iiotimeprec st \<noteq> 0" and "isavetime st \<noteq> 0"
  shows "\<exists>b st'. do_save wall st = Inr (b, st') \<and>
           (b \<longleftrightarrow> \<not> in_substep st \<and>
                  (itime st mod isavetime st = 0 \<and> iteration st \<noteq> 0 \<or>
                   wall \<and> itime st mod iiotimeprec st = 0)) \<and>
           st' = (if wall \<and> \<not> in_substep st \<and> itime st mod iiotimeprec st = 0
                  then st\<lparr>loop := False\<rparr> else st) \<and>
           (wall \<and> \<not> in_substep st \<and> itime st mod iiotimeprec st = 0 \<longrightarrow>
              b \<and> is_finished st') \<and>
           (is_finished st' \<longleftrightarrow>
              is_finished st \<or> wall \<and> \<not> in_substep st \<and> itime st mod iiotimeprec st = 0) \<and>
           (is_finished st' \<and> \<not> is_finished st \<longrightarrow> b)"
  using assms by (auto simp add: do_save_def is_finished_def)

text \<open>
  The limit reported at 3 s, between two save times: a save, and the loop stops. No limit
  reported at 5 s, a save time: a save, and the loop goes on.
\<close>

theorem do_save_spec_witness:
  "iiotimeprec (demo\<lparr>itime := 3000000000, iteration := 3\<rparr>) \<noteq> 0 \<and>
   isavetime (demo\<lparr>itime := 3000000000, iteration := 3\<rparr>) \<noteq> 0 \<and>
   \<not> in_substep (demo\<lparr>itime := 3000000000, iteration := 3\<rparr>) \<and>
   itime (demo\<lparr>itime := 3000000000, iteration := 3\<rparr>)
     mod iiotimeprec (demo\<lparr>itime := 3000000000, iteration := 3\<rparr>) = 0 \<and>
   do_save True (demo\<lparr>itime := 3000000000, iteration := 3\<rparr>) =
     Inr (True, demo\<lparr>itime := 3000000000, iteration := 3, loop := False\<rparr>) \<and>
   is_finished (demo\<lparr>itime := 3000000000, iteration := 3, loop := False\<rparr>) \<and>
   iiotimeprec (demo\<lparr>itime := 5000000000, iteration := 5\<rparr>) \<noteq> 0 \<and>
   isavetime (demo\<lparr>itime := 5000000000, iteration := 5\<rparr>) \<noteq> 0 \<and>
   do_save False (demo\<lparr>itime := 5000000000, iteration := 5\<rparr>) =
     Inr (True, demo\<lparr>itime := 5000000000, iteration := 5\<rparr>) \<and>
   \<not> is_finished (demo\<lparr>itime := 5000000000, iteration := 5\<rparr>)"
  using do_save_spec [of "demo\<lparr>itime := 3000000000, iteration := 3\<rparr>" True]
    do_save_spec [of "demo\<lparr>itime := 5000000000, iteration := 5\<rparr>" False]
  by (auto simp add: demo_def in_substep_def is_finished_def)

subsection \<open>Committing the time step\<close>

text \<open>
  C2, as stated, fails. In adaptive mode and inside a substep, \<open>set_time_step\<close>
  returns without committing the limit: \<open>idt\<close> stays different from \<open>idtlim\<close>.
\<close>

theorem set_time_step_counterexample:
  "adaptivestep (demo\<lparr>substep := 1, idtlim := 7\<rparr>) \<and>
   set_time_step exact (demo\<lparr>substep := 1, idtlim := 7\<rparr>) =
     Inr (demo\<lparr>substep := 1, idtlim := 7\<rparr>) \<and>
   idt (demo\<lparr>substep := 1, idtlim := 7\<rparr>) \<noteq> idtlim (demo\<lparr>substep := 1, idtlim := 7\<rparr>)"
  by (simp add: set_time_step_def in_substep_def demo_def)

text \<open>
  C2, amended. Inside a substep \<open>set_time_step\<close> changes nothing. Outside a substep
  and in adaptive mode it either throws, with the state as it was before the call, or
  commits \<open>idtlim\<close> as \<open>idt\<close> and sets \<open>dt\<close> to \<open>(double)idt / ifactor\<close>; it commits
  when both the current step and the limit are nonzero, and throws when both are zero.
\<close>

theorem set_time_step_spec:
  "(in_substep st \<longrightarrow> set_time_step F st = Inr st) \<and>
   (\<not> in_substep st \<and> adaptivestep st \<longrightarrow>
      (set_time_step F st = Inl (Thrown st) \<or>
       set_time_step F st =
         Inr (st\<lparr>idt := idtlim st, dt := fdiv F (of_ulong F (idtlim st)) (ifactor st)\<rparr>)) \<and>
      (idt st \<noteq> 0 \<and> idtlim st \<noteq> 0 \<longrightarrow>
         set_time_step F st =
           Inr (st\<lparr>idt := idtlim st, dt := fdiv F (of_ulong F (idtlim st)) (ifactor st)\<rparr>)) \<and>
      (idt st = 0 \<and> idtlim st = 0 \<longrightarrow> set_time_step F st = Inl (Thrown st)))"
  by (auto simp add: set_time_step_def Let_def)

text \<open>
  A limit of 7 ticks, committed as a step of 7 ns; the same call inside a substep; and a
  call with the step and the limit both zero.
\<close>

theorem set_time_step_spec_witness:
  "\<not> in_substep (demo\<lparr>idtlim := 7\<rparr>) \<and> adaptivestep (demo\<lparr>idtlim := 7\<rparr>) \<and>
   idt (demo\<lparr>idtlim := 7\<rparr>) \<noteq> 0 \<and> idtlim (demo\<lparr>idtlim := 7\<rparr>) \<noteq> 0 \<and>
   set_time_step exact (demo\<lparr>idtlim := 7\<rparr>) =
     Inr (demo\<lparr>idtlim := 7, idt := 7, dt := 7 / 1000000000\<rparr>) \<and>
   in_substep (demo\<lparr>substep := 1, idtlim := 7\<rparr>) \<and>
   set_time_step exact (demo\<lparr>substep := 1, idtlim := 7\<rparr>) =
     Inr (demo\<lparr>substep := 1, idtlim := 7\<rparr>) \<and>
   \<not> in_substep (demo\<lparr>idt := 0, idtlim := 0\<rparr>) \<and>
   adaptivestep (demo\<lparr>idt := 0, idtlim := 0\<rparr>) \<and>
   set_time_step exact (demo\<lparr>idt := 0, idtlim := 0\<rparr>) =
     Inl (Thrown (demo\<lparr>idt := 0, idtlim := 0\<rparr>))"
  using set_time_step_spec [of "demo\<lparr>idtlim := 7\<rparr>" exact]
    set_time_step_spec [of "demo\<lparr>substep := 1, idtlim := 7\<rparr>" exact]
    set_time_step_spec [of "demo\<lparr>idt := 0, idtlim := 0\<rparr>" exact]
  by (auto simp add: demo_def in_substep_def exact_def)

text \<open>
  Between these cases: the test for a zero step reads \<open>idt\<close> before the limit is
  assigned to it, so that a zero limit is committed when the step before it was not zero,
  and a nonzero limit is refused when the step before it was zero.
\<close>

lemma set_time_step_tests_previous_step:
  "\<not> in_substep st \<Longrightarrow> adaptivestep st \<Longrightarrow>
   set_time_step F st =
     (if idt st = 0 then Inl (Thrown st)
      else Inr (st\<lparr>idt := idtlim st, dt := fdiv F (of_ulong F (idtlim st)) (ifactor st)\<rparr>))"
  by (simp add: set_time_step_def Let_def)

subsection \<open>The stage kernels\<close>


lemma smod_nonneg: "0 \<le> (a::int) \<Longrightarrow> 0 < b \<Longrightarrow> a smod b = a mod b"
  by (simp add: smod_int_alt_def sgn_if)




text \<open>On a grid of that layout the loops of a kernel visit no offset twice.\<close>

lemma distinct_concat_map:
  assumes "distinct ks"
    and "\<And>k. k \<in> set ks \<Longrightarrow> distinct (f k)"
    and "\<And>k k'. k \<in> set ks \<Longrightarrow> k' \<in> set ks \<Longrightarrow> k \<noteq> k' \<Longrightarrow> set (f k) \<inter> set (f k') = {}"
  shows "distinct (concat (map f ks))"
  using assms
proof (induction ks)
  case Nil
  then show ?case by simp
next
  case (Cons k ks)
  have "distinct (concat (map f ks))"
    using Cons by simp
  moreover have "distinct (f k)"
    using Cons.prems(2) by simp
  moreover have "set (f k) \<inter> set (f k') = {}" if "k' \<in> set ks" for k'
    using Cons.prems(1) Cons.prems(3) [of k k'] that by auto
  ultimately show ?case
    by auto
qed

lemma offset_unique:
  fixes r r' k k' m :: int
  assumes "0 \<le> r" "r < m" "0 \<le> r'" "r' < m" "r + k * m = r' + k' * m"
  shows "k = k'" and "r = r'"
proof -
  have "k = (r + k * m) div m"
    using assms(1,2) by simp
  also have "\<dots> = (r' + k' * m) div m"
    by (simp only: assms(5))
  also have "\<dots> = k'"
    using assms(3,4) by simp
  finally show "k = k'" .
  then show "r = r'"
    using assms(5) by simp
qed

lemma cells_distinct:
  assumes "grid_wf g"
  shows "distinct (cells g)"
proof -
  let ?jj = "icells g" and ?kk = "ijcells g"
  from assms have wf: "0 \<le> istart g" "iend g \<le> ?jj" "0 \<le> jstart g" "jend g * ?jj \<le> ?kk"
    by (simp_all add: grid_wf_def)
  have row: "0 \<le> i + j * ?jj \<and> i + j * ?jj < ?kk"
    if "i \<in> set [istart g..iend g - 1]" "j \<in> set [jstart g..jend g - 1]" for i j
  proof -
    from that wf have i: "0 \<le> i" "i < ?jj" and j: "0 \<le> j" "j + 1 \<le> jend g"
      by auto
    have "0 \<le> j * ?jj"
      using i j by simp
    moreover have "(j + 1) * ?jj \<le> jend g * ?jj"
      using j i by (intro mult_right_mono) auto
    ultimately show ?thesis
      using i wf(4) by (simp add: algebra_simps)
  qed
  have inner: "distinct (map (\<lambda>i. i + j * ?jj + k * ?kk) [istart g..iend g - 1])" for j k
    by (simp add: distinct_map inj_on_def)
  have middle: "distinct (concat (map (\<lambda>j. map (\<lambda>i. i + j * ?jj + k * ?kk)
                    [istart g..iend g - 1]) [jstart g..jend g - 1]))" for k
  proof (rule distinct_concat_map)
    show "distinct [jstart g..jend g - 1]" by simp
    show "distinct (map (\<lambda>i. i + j * ?jj + k * ?kk) [istart g..iend g - 1])" for j
      by (rule inner)
    show "set (map (\<lambda>i. i + j * ?jj + k * ?kk) [istart g..iend g - 1]) \<inter>
          set (map (\<lambda>i. i + j' * ?jj + k * ?kk) [istart g..iend g - 1]) = {}"
      if "j \<in> set [jstart g..jend g - 1]" "j' \<in> set [jstart g..jend g - 1]" "j \<noteq> j'" for j j'
    proof -
      have False if "i \<in> set [istart g..iend g - 1]" "i' \<in> set [istart g..iend g - 1]"
        "i + j * ?jj + k * ?kk = i' + j' * ?jj + k * ?kk" for i i'
      proof -
        from that wf have "0 \<le> i" "i < ?jj" "0 \<le> i'" "i' < ?jj" "i + j * ?jj = i' + j' * ?jj"
          by auto
        then have "j = j'"
          by (rule offset_unique)
        with \<open>j \<noteq> j'\<close> show False by simp
      qed
      then show ?thesis
        by (auto simp del: set_upto)
    qed
  qed
  have "distinct (concat (map (\<lambda>k. concat (map (\<lambda>j. map (\<lambda>i. i + j * ?jj + k * ?kk)
          [istart g..iend g - 1]) [jstart g..jend g - 1])) [kstart g..kend g - 1]))"
  proof (rule distinct_concat_map)
    show "distinct [kstart g..kend g - 1]" by simp
    show "distinct (concat (map (\<lambda>j. map (\<lambda>i. i + j * ?jj + k * ?kk)
            [istart g..iend g - 1]) [jstart g..jend g - 1]))" for k
      by (rule middle)
    show "set (concat (map (\<lambda>j. map (\<lambda>i. i + j * ?jj + k * ?kk)
            [istart g..iend g - 1]) [jstart g..jend g - 1])) \<inter>
          set (concat (map (\<lambda>j. map (\<lambda>i. i + j * ?jj + k' * ?kk)
            [istart g..iend g - 1]) [jstart g..jend g - 1])) = {}"
      if "k \<noteq> k'" for k k'
    proof -
      have False if "i \<in> set [istart g..iend g - 1]" "j \<in> set [jstart g..jend g - 1]"
        "i' \<in> set [istart g..iend g - 1]" "j' \<in> set [jstart g..jend g - 1]"
        "i + j * ?jj + k * ?kk = i' + j' * ?jj + k' * ?kk" for i j i' j'
      proof -
        from row [OF that(1,2)] row [OF that(3,4)] that(5)
        have "k = k'"
          by (intro offset_unique(1) [of "i + j * ?jj" ?kk "i' + j' * ?jj" k k']) auto
        with \<open>k \<noteq> k'\<close> show False by simp
      qed
      then show ?thesis
        by (auto simp del: set_upto)
    qed
  qed
  then show ?thesis
    by (simp add: cells_def)
qed



subsection \<open>The substep counter\<close>

lemma for_fields_returns:
  assumes "\<And>a tend. \<exists>r. kern a tend = Inr r"
  shows "fst ` set ts \<subseteq> dom p \<Longrightarrow>
         \<exists>p' ts'. for_fields kern p ts = Inr (p', ts') \<and> dom p' = dom p \<and>
                  map fst ts' = map fst ts"
proof (induction ts arbitrary: p)
  case Nil
  then show ?case by simp
next
  case (Cons nt ts)
  obtain name tend where nt: "nt = (name, tend)"
    by (cases nt)
  from Cons.prems nt obtain a where a: "p name = Some a"
    by auto
  from assms obtain a' tend' where k: "kern a tend = Inr (a', tend')"
    by (metis surj_pair)
  have "fst ` set ts \<subseteq> dom (p(name \<mapsto> a'))"
    using Cons.prems by auto
  from Cons.IH [OF this] obtain p' ts'
    where r: "for_fields kern (p(name \<mapsto> a')) ts = Inr (p', ts')"
      and d: "dom p' = dom (p(name \<mapsto> a'))" and m: "map fst ts' = map fst ts"
    by blast
  have "dom p' = dom p"
    using d a by auto
  then show ?case
    using nt a k r m by simp
qed

lemma rk3_returns:
  "0 \<le> substep st \<Longrightarrow> substep st < 3 \<Longrightarrow> \<exists>r. rk3 F g st a tend dt' = Inr r"
  by (simp add: rk3_def coef_def rk3_cA_def rk3_cB_def smod_nonneg Let_def)

lemma rk4_returns:
  "0 \<le> substep st \<Longrightarrow> substep st < 5 \<Longrightarrow> \<exists>r. rk4 F g st a tend dt' = Inr r"
  by (simp add: rk4_def coef_def rk4_cA_def rk4_cB_def smod_nonneg Let_def)

lemma exec_rk3:
  assumes "rkorder st = 3" and "0 \<le> substep st" and "substep st < 3"
    and "fields_paired flds"
  shows "\<exists>flds'. exec F g (flds, st) = Inr (flds', st\<lparr>substep := (substep st + 1) mod 3\<rparr>) \<and>
                 fields_paired flds'"
proof -
  have "fst ` set (at_map flds) \<subseteq> dom (ap flds)"
    using assms(4) by (simp add: fields_paired_def)
  from for_fields_returns [where kern = "\<lambda>a tend. rk3 F g st a tend (dt st)", OF _ this]
    rk3_returns [OF assms(2,3)]
  obtain p' ts' where
    r: "for_fields (\<lambda>a tend. rk3 F g st a tend (dt st)) (ap flds) (at_map flds) = Inr (p', ts')"
    and d: "dom p' = dom (ap flds)" and m: "map fst ts' = map fst (at_map flds)"
    by blast
  have "fst ` set ts' = fst ` set (at_map flds)"
    using m by (metis set_map)
  then have "fields_paired (flds\<lparr>ap := p', at_map := ts'\<rparr>)"
    using assms(4) d by (simp add: fields_paired_def)
  then show ?thesis
    using assms(1,2) r by (simp add: exec_def smod_nonneg)
qed

lemma exec_rk4:
  assumes "rkorder st = 4" and "0 \<le> substep st" and "substep st < 5"
    and "fields_paired flds"
  shows "\<exists>flds'. exec F g (flds, st) = Inr (flds', st\<lparr>substep := (substep st + 1) mod 5\<rparr>) \<and>
                 fields_paired flds'"
proof -
  have "fst ` set (at_map flds) \<subseteq> dom (ap flds)"
    using assms(4) by (simp add: fields_paired_def)
  from for_fields_returns [where kern = "\<lambda>a tend. rk4 F g st a tend (dt st)", OF _ this]
    rk4_returns [OF assms(2,3)]
  obtain p' ts' where
    r: "for_fields (\<lambda>a tend. rk4 F g st a tend (dt st)) (ap flds) (at_map flds) = Inr (p', ts')"
    and d: "dom p' = dom (ap flds)" and m: "map fst ts' = map fst (at_map flds)"
    by blast
  have "fst ` set ts' = fst ` set (at_map flds)"
    using m by (metis set_map)
  then have "fields_paired (flds\<lparr>ap := p', at_map := ts'\<rparr>)"
    using assms(4) d by (simp add: fields_paired_def)
  then show ?thesis
    using assms(1,2) r by (simp add: exec_def smod_nonneg)
qed

lemma substep_after_Suc:
  "exec F g (flds, st) = Inr (flds', st') \<Longrightarrow>
   substep_after (Suc n) F g (flds, st) = substep_after n F g (flds', st')"
  by (simp add: substep_after_def)

lemma substep_after_0: "substep_after 0 F g (flds, st) = Inr (substep st)"
  by (simp add: substep_after_def)

lemma substep_after_rk3:
  assumes "rkorder st = 3" and "0 \<le> substep st" and "substep st < 3" and "fields_paired flds"
  shows "substep_after n F g (flds, st) = Inr ((substep st + int n) mod 3)"
  using assms
proof (induction n arbitrary: flds st)
  case 0
  then show ?case by (simp add: substep_after_0)
next
  case (Suc n)
  from exec_rk3 [OF Suc.prems] obtain flds'
    where e: "exec F g (flds, st) = Inr (flds', st\<lparr>substep := (substep st + 1) mod 3\<rparr>)"
      and p: "fields_paired flds'"
    by blast
  have h: "substep_after n F g (flds', st\<lparr>substep := (substep st + 1) mod 3\<rparr>) =
        Inr (((substep st + 1) mod 3 + int n) mod 3)"
    using Suc.IH [of "st\<lparr>substep := (substep st + 1) mod 3\<rparr>" flds'] Suc.prems(1) p
    by simp
  have ar: "((substep st + 1) mod 3 + int n) mod 3 = (substep st + int (Suc n)) mod 3"
    by presburger
  show ?case
    using h ar by (simp only: substep_after_Suc [OF e])
qed

lemma substep_after_rk4:
  assumes "rkorder st = 4" and "0 \<le> substep st" and "substep st < 5" and "fields_paired flds"
  shows "substep_after n F g (flds, st) = Inr ((substep st + int n) mod 5)"
  using assms
proof (induction n arbitrary: flds st)
  case 0
  then show ?case by (simp add: substep_after_0)
next
  case (Suc n)
  from exec_rk4 [OF Suc.prems] obtain flds'
    where e: "exec F g (flds, st) = Inr (flds', st\<lparr>substep := (substep st + 1) mod 5\<rparr>)"
      and p: "fields_paired flds'"
    by blast
  have h: "substep_after n F g (flds', st\<lparr>substep := (substep st + 1) mod 5\<rparr>) =
        Inr (((substep st + 1) mod 5 + int n) mod 5)"
    using Suc.IH [of "st\<lparr>substep := (substep st + 1) mod 5\<rparr>" flds'] Suc.prems(1) p
    by simp
  have ar: "((substep st + 1) mod 5 + int n) mod 5 = (substep st + int (Suc n)) mod 5"
    by presburger
  show ?case
    using h ar by (simp only: substep_after_Suc [OF e])
qed

lemma demo_fields_paired: "fields_paired demo_fields"
  by (simp add: fields_paired_def demo_fields_def)

text \<open>
  C3, as stated, fails for \<open>rkorder = 4\<close>: that scheme has five stages, with five
  entries in each of its tables, and after four calls of \<open>exec\<close> from substep 0 the
  counter is 4, not 0.
\<close>

theorem substep_cycle_counterexample:
  "rkorder (demo\<lparr>rkorder := 4\<rparr>) = 4 \<and> substep (demo\<lparr>rkorder := 4\<rparr>) = 0 \<and>
   substep_after 4 exact demo_grid (demo_fields, demo\<lparr>rkorder := 4\<rparr>) = Inr 4"
  using substep_after_rk4 [of "demo\<lparr>rkorder := 4\<rparr>" demo_fields 4 exact demo_grid]
  by (simp add: demo_def demo_fields_paired)

text \<open>
  C3, amended. From \<open>substep == 0\<close>, with every tendency paired with its field, the
  calls of \<open>exec\<close> return and the counter runs 1, 2, 0 for \<open>rkorder = 3\<close>, back at 0
  after exactly three calls, and 1, 2, 3, 4, 0 for \<open>rkorder = 4\<close>, back at 0 after
  exactly five.
\<close>

theorem substep_cycle:
  assumes "fields_paired flds" and "substep st = 0"
  shows "(rkorder st = 3 \<longrightarrow>
            substep_after 1 F g (flds, st) = Inr 1 \<and>
            substep_after 2 F g (flds, st) = Inr 2 \<and>
            substep_after 3 F g (flds, st) = Inr 0) \<and>
         (rkorder st = 4 \<longrightarrow>
            substep_after 1 F g (flds, st) = Inr 1 \<and>
            substep_after 2 F g (flds, st) = Inr 2 \<and>
            substep_after 3 F g (flds, st) = Inr 3 \<and>
            substep_after 4 F g (flds, st) = Inr 4 \<and>
            substep_after 5 F g (flds, st) = Inr 0)"
proof -
  have 3: "substep_after n F g (flds, st) = Inr (int n mod 3)" if "rkorder st = 3" for n
    using substep_after_rk3 [of st flds n F g] that assms by simp
  have 4: "substep_after n F g (flds, st) = Inr (int n mod 5)" if "rkorder st = 4" for n
    using substep_after_rk4 [of st flds n F g] that assms by simp
  show ?thesis
    by (simp add: 3 4)
qed

text \<open>Both orders on the small configuration.\<close>

theorem substep_cycle_witness:
  "fields_paired demo_fields \<and> substep demo = 0 \<and> rkorder demo = 3 \<and>
   substep_after 1 exact demo_grid (demo_fields, demo) = Inr 1 \<and>
   substep_after 2 exact demo_grid (demo_fields, demo) = Inr 2 \<and>
   substep_after 3 exact demo_grid (demo_fields, demo) = Inr 0 \<and>
   substep (demo\<lparr>rkorder := 4\<rparr>) = 0 \<and> rkorder (demo\<lparr>rkorder := 4\<rparr>) = 4 \<and>
   substep_after 1 exact demo_grid (demo_fields, demo\<lparr>rkorder := 4\<rparr>) = Inr 1 \<and>
   substep_after 2 exact demo_grid (demo_fields, demo\<lparr>rkorder := 4\<rparr>) = Inr 2 \<and>
   substep_after 3 exact demo_grid (demo_fields, demo\<lparr>rkorder := 4\<rparr>) = Inr 3 \<and>
   substep_after 4 exact demo_grid (demo_fields, demo\<lparr>rkorder := 4\<rparr>) = Inr 4 \<and>
   substep_after 5 exact demo_grid (demo_fields, demo\<lparr>rkorder := 4\<rparr>) = Inr 0"
proof -
  have p: "fields_paired demo_fields"
    by (simp add: fields_paired_def demo_fields_def)
  have s: "substep demo = 0" "rkorder demo = 3"
    by (simp_all add: demo_def)
  have s4: "substep (demo\<lparr>rkorder := 4\<rparr>) = 0" "rkorder (demo\<lparr>rkorder := 4\<rparr>) = 4"
    by (simp_all add: demo_def)
  show ?thesis
    using substep_cycle [OF p s(1), of exact demo_grid]
      substep_cycle [OF p s4(1), of exact demo_grid] p s s4
    by simp
qed

subsection \<open>The coefficient tables\<close>

text \<open>
  C4, as stated, fails: the \<open>cB\<close> of the three-stage scheme sum to \<open>433/240\<close>, and
  those of the other scheme do not sum to 1 either.
\<close>

theorem cB_sum_counterexample:
  "sum_list rk3_cB = 433 / 240 \<and> sum_list rk3_cB \<noteq> 1 \<and> sum_list rk4_cB \<noteq> 1"
  by (simp add: rk3_cB_def rk4_cB_def)

text \<open>
  C4, amended. What is normalised is the weight that a full step gives a constant
  tendency, the sum of \<open>cB[s] * w\<^sub>s\<close> with \<open>w\<^sub>0 = 1\<close> and
  \<open>w\<^sub>s = 1 + cA[s] * w\<^bsub>s-1\<^esub>\<close>: it is exactly 1 for \<open>rkorder = 3\<close>, and for
  \<open>rkorder = 4\<close>, whose coefficients are rounded to thirteen digits, it is not 1 but
  within \<open>10\<^sup>-\<^sup>2\<^sup>5\<close> of it.
\<close>

theorem step_weight_normalised:
  "step_weight rk3_cA rk3_cB = 1 \<and>
   step_weight rk4_cA rk4_cB \<noteq> 1 \<and>
   \<bar>step_weight rk4_cA rk4_cB - 1\<bar> < 1 / 10 ^ 25"
  by (simp add: step_weight_def rk3_cA_def rk3_cB_def rk4_cA_def rk4_cB_def)

subsection \<open>Interpolation factors\<close>

text \<open>
  The loop counts the leading reference times that \<open>time\<close> is not below. Before the
  first reference time and from the last one on, the factors select one end of the
  sequence; in between they weigh the two neighbours; the indices never leave the
  sequence. All this holds for any interpretation of the double operations. In exact
  arithmetic the weights are not negative, sum to 1, and blend the two reference times
  to \<open>time\<close> itself, or to the first or last reference time where \<open>time\<close> is
  outside the sequence.
\<close>

lemma count_index1_past_all:
  "\<forall>t\<in>set ts. \<not> fless F tm t \<Longrightarrow> count_index1 F tm ts i = i + int (length ts)"
  by (induction ts arbitrary: i) simp_all

lemma factors_before_first:
  "fless F (time st) t \<Longrightarrow>
   get_interpolation_factors F st (t # ts) = (0, 0, fconst F 0, fconst F 1)"
  by (simp add: get_interpolation_factors_def)

lemma factors_past_last:
  assumes "ts \<noteq> []" and "\<forall>t\<in>set ts. \<not> fless F (time st) t"
  shows "get_interpolation_factors F st ts =
           (int (length ts) - 1, int (length ts) - 1, fconst F 1, fconst F 0)"
  using assms by (simp add: get_interpolation_factors_def count_index1_past_all Let_def)

lemma count_index1_takeWhile:
  "count_index1 F tm ts i = i + int (length (takeWhile (\<lambda>t. \<not> fless F tm t) ts))"
  by (induction ts arbitrary: i) simp_all

lemma count_index1_append:
  "\<forall>t\<in>set xs. \<not> fless F tm t \<Longrightarrow>
   count_index1 F tm (xs @ ys) i = count_index1 F tm ys (i + int (length xs))"
  by (induction xs arbitrary: i) (simp_all add: add.assoc)

lemma factors_between:
  assumes "\<forall>t\<in>set (pre @ [t0]). \<not> fless F (time st) t" and "fless F (time st) t1"
  shows "get_interpolation_factors F st (pre @ t0 # t1 # post) =
           (int (length pre), int (length pre) + 1,
            fdiv F (fsub F t1 (time st)) (fsub F t1 t0),
            fdiv F (fsub F (time st) t0) (fsub F t1 t0))"
proof -
  have "count_index1 F (time st) ((pre @ [t0]) @ t1 # post) 0 =
        count_index1 F (time st) (t1 # post) (0 + int (length (pre @ [t0])))"
    using assms(1) by (rule count_index1_append)
  then have n: "count_index1 F (time st) (pre @ t0 # t1 # post) 0 = int (length pre) + 1"
    using assms(2) by simp
  have i1: "(pre @ t0 # t1 # post) ! nat (int (length pre) + 1) = t1"
    by (simp add: nth_append nat_add_distrib)
  have i0: "(pre @ t0 # t1 # post) ! nat (int (length pre)) = t0"
    by (simp add: nth_append)
  show ?thesis
    by (simp add: get_interpolation_factors_def n Let_def i0 i1)
qed

lemma factors_indices_in_range:
  assumes "tv \<noteq> []"
  shows "case get_interpolation_factors F st tv of
           (index0, index1, fac0, fac1) \<Rightarrow>
             0 \<le> index0 \<and> index0 \<le> index1 \<and> index1 \<le> index0 + 1 \<and>
             index1 < int (length tv)"
proof -
  let ?n = "count_index1 F (time st) tv 0"
  have "0 \<le> ?n" "?n \<le> int (length tv)"
    using length_takeWhile_le [of "\<lambda>t. \<not> fless F (time st) t" tv]
    by (simp_all add: count_index1_takeWhile)
  then show ?thesis
    using assms by (auto simp add: get_interpolation_factors_def Let_def)
qed

lemma exact_sel:
  "fadd exact = (+)" "fsub exact = (-)" "fmul exact = (*)" "fdiv exact = (/)"
  "fless exact = (<)" "fconst exact q = q"
  by (simp_all add: exact_def)

lemma exact_factors_interpolate:
  fixes sq :: "rat timeloop" and tq :: "rat list"
  assumes "tq \<noteq> []"
  shows "case get_interpolation_factors exact sq tq of
           (index0, index1, fac0, fac1) \<Rightarrow>
             fac0 + fac1 = 1 \<and> 0 \<le> fac0 \<and> 0 \<le> fac1 \<and>
             fac0 * tq ! nat index0 + fac1 * tq ! nat index1 =
               (if time sq < hd tq then hd tq
                else if \<forall>t\<in>set tq. t \<le> time sq then last tq
                else time sq)"
proof -
  let ?P = "\<lambda>t. \<not> fless exact (time sq) t"
  define k where "k = length (takeWhile ?P tq)"
  have P: "?P t \<longleftrightarrow> t \<le> time sq" for t
    by (auto simp add: exact_sel)
  have n: "count_index1 exact (time sq) tq 0 = int k"
    by (simp add: count_index1_takeWhile k_def)
  have le: "k \<le> length tq"
    unfolding k_def by (rule length_takeWhile_le)
  have before: "tq ! j \<le> time sq" if "j < k" for j
  proof -
    have "takeWhile ?P tq ! j \<in> set (takeWhile ?P tq)"
      using that unfolding k_def by (rule nth_mem)
    moreover have "takeWhile ?P tq ! j = tq ! j"
      using that unfolding k_def by (rule takeWhile_nth)
    ultimately have "?P (tq ! j)"
      using set_takeWhileD [of "tq ! j" ?P tq] by simp
    then show ?thesis
      by (simp add: P)
  qed
  have at_k: "time sq < tq ! k" if "k < length tq"
    using nth_length_takeWhile [of ?P tq] that by (simp add: k_def exact_sel)
  have hd: "hd tq = tq ! 0"
    using assms by (simp add: hd_conv_nth)
  have lst: "last tq = tq ! (length tq - 1)"
    using assms by (rule last_conv_nth)
  have pred: "nat (int m - 1) = m - 1" for m
    by simp
  consider (low) "k = 0" | (high) "k = length tq" | (mid) "0 < k" "k < length tq"
    using le by linarith
  then show ?thesis
  proof cases
    case low
    then have "time sq < tq ! 0"
      using at_k assms by simp
    then show ?thesis
      using low by (simp add: get_interpolation_factors_def n exact_sel hd)
  next
    case high
    have all: "\<forall>t\<in>set tq. t \<le> time sq"
      using before high by (auto simp add: in_set_conv_nth)
    have "\<not> time sq < tq ! 0"
      using before [of 0] high assms by simp
    then show ?thesis
      using high assms all
      by (simp add: get_interpolation_factors_def n exact_sel Let_def hd lst pred)
  next
    case mid
    have notfirst: "\<not> time sq < tq ! 0"
      using before [of 0] mid(1) by simp
    have notall: "\<not> (\<forall>t\<in>set tq. t \<le> time sq)"
    proof
      assume "\<forall>t\<in>set tq. t \<le> time sq"
      moreover have "tq ! k \<in> set tq"
        using mid(2) by (rule nth_mem)
      ultimately have "tq ! k \<le> time sq"
        by blast
      with at_k [OF mid(2)] show False
        by simp
    qed
    define a where "a = tq ! (k - Suc 0)"
    define b where "b = tq ! k"
    define x where "x = time sq"
    have ab: "a \<le> x" "x < b"
      using before [of "k - 1"] at_k mid by (simp_all add: a_def b_def x_def)
    then have d: "b - a \<noteq> 0" "0 < b - a"
      by simp_all
    have s: "(b - x) / (b - a) + (x - a) / (b - a) = 1"
      using d by (simp add: add_divide_distrib [symmetric])
    have p0: "0 \<le> (b - x) / (b - a)" and p1: "0 \<le> (x - a) / (b - a)"
      using ab d by simp_all
    have v: "(b - x) / (b - a) * a + (x - a) / (b - a) * b = x"
    proof -
      have "(b - x) / (b - a) * a + (x - a) / (b - a) * b =
            ((b - x) * a + (x - a) * b) / (b - a)"
        by (simp add: add_divide_distrib)
      also have "(b - x) * a + (x - a) * b = x * (b - a)"
        by (simp add: algebra_simps)
      also have "x * (b - a) / (b - a) = x"
        using d by simp
      finally show ?thesis .
    qed
    have r: "get_interpolation_factors exact sq tq =
            (int k - 1, int k, (b - x) / (b - a), (x - a) / (b - a))"
      using mid
      by (simp add: get_interpolation_factors_def n exact_sel Let_def pred a_def b_def x_def)
    have "nat (int k - 1) = k - 1"
      by (rule pred)
    then show ?thesis
      using s p0 p1 v notfirst notall
      by (auto simp add: r hd a_def [symmetric] b_def [symmetric] x_def [symmetric])
  qed
qed

text \<open>
  C6. \<open>get_interpolation_factors\<close> clamps at both ends of the reference sequence and
  does not extrapolate. For every sequence and time, and any double arithmetic: with no
  reference time, or with \<open>time\<close> below the first, the indices are \<open>(0, 0)\<close> and the
  weights \<open>(0, 1)\<close>; with \<open>time\<close> below none of the \<open>n\<close> reference times, the
  indices are \<open>(n-1, n-1)\<close> and the weights \<open>(1, 0)\<close>; with \<open>time\<close> not below
  \<open>t0\<close> nor any entry before it, and below the next entry \<open>t1\<close>, the indices are
  those of \<open>t0\<close> and \<open>t1\<close> and the weights are \<open>(t1 - time) / (t1 - t0)\<close> and
  \<open>(time - t0) / (t1 - t0)\<close>, each the distance to the other reference time over the
  length of the interval; and the indices are always within the sequence and at most one
  apart. In exact arithmetic the weights are never negative, sum to 1, and give the two
  selected reference times the weighted mean \<open>time\<close>, clamped to the first and last
  reference time. In particular, with reference times 10, 20, 30: time 5 gives indices
  \<open>(0, 0)\<close> and weights \<open>(0, 1)\<close>; time 25 gives indices \<open>(1, 2)\<close> and weights
  that sum to 1; time 35 gives indices \<open>(2, 2)\<close> and weights \<open>(1, 0)\<close>.
\<close>

theorem interpolation_factors_clamped:
  fixes st :: "'f timeloop" and sq :: "rat timeloop" and tq :: "rat list"
  shows
  "get_interpolation_factors F st [] = (0, 0, fconst F 0, fconst F 1) \<and>
   (fless F (time st) t \<longrightarrow>
      get_interpolation_factors F st (t # ts) = (0, 0, fconst F 0, fconst F 1)) \<and>
   (tv \<noteq> [] \<and> (\<forall>t\<in>set tv. \<not> fless F (time st) t) \<longrightarrow>
      get_interpolation_factors F st tv =
        (int (length tv) - 1, int (length tv) - 1, fconst F 1, fconst F 0)) \<and>
   ((\<forall>t\<in>set (pre @ [t0]). \<not> fless F (time st) t) \<and> fless F (time st) t1 \<longrightarrow>
      get_interpolation_factors F st (pre @ t0 # t1 # post) =
        (int (length pre), int (length pre) + 1,
         fdiv F (fsub F t1 (time st)) (fsub F t1 t0),
         fdiv F (fsub F (time st) t0) (fsub F t1 t0))) \<and>
   (tw \<noteq> [] \<longrightarrow>
      (case get_interpolation_factors F st tw of
         (index0, index1, fac0, fac1) \<Rightarrow>
           0 \<le> index0 \<and> index0 \<le> index1 \<and> index1 \<le> index0 + 1 \<and>
           index1 < int (length tw))) \<and>
   (tq \<noteq> [] \<longrightarrow>
      (case get_interpolation_factors exact sq tq of
         (index0, index1, fac0, fac1) \<Rightarrow>
           fac0 + fac1 = 1 \<and> 0 \<le> fac0 \<and> 0 \<le> fac1 \<and>
           fac0 * tq ! nat index0 + fac1 * tq ! nat index1 =
             (if time sq < hd tq then hd tq
              else if \<forall>t\<in>set tq. t \<le> time sq then last tq
              else time sq))) \<and>
   get_interpolation_factors exact (demo\<lparr>time := 5\<rparr>) [10, 20, 30] = (0, 0, 0, 1) \<and>
   get_interpolation_factors exact (demo\<lparr>time := 25\<rparr>) [10, 20, 30] =
     (1, 2, (30 - 25) / (30 - 20), (25 - 20) / (30 - 20)) \<and>
   (30 - 25) / (30 - 20) + (25 - 20) / (30 - 20) = (1 :: rat) \<and>
   get_interpolation_factors exact (demo\<lparr>time := 35\<rparr>) [10, 20, 30] = (2, 2, 1, 0)"
proof (intro conjI impI)
  show "get_interpolation_factors F st [] = (0, 0, fconst F 0, fconst F 1)"
    by (simp add: get_interpolation_factors_def)
  show "get_interpolation_factors F st (t # ts) = (0, 0, fconst F 0, fconst F 1)"
    if "fless F (time st) t"
    using that by (rule factors_before_first)
  show "get_interpolation_factors F st tv =
          (int (length tv) - 1, int (length tv) - 1, fconst F 1, fconst F 0)"
    if "tv \<noteq> [] \<and> (\<forall>t\<in>set tv. \<not> fless F (time st) t)"
    using that by (intro factors_past_last) simp_all
  show "get_interpolation_factors F st (pre @ t0 # t1 # post) =
          (int (length pre), int (length pre) + 1,
           fdiv F (fsub F t1 (time st)) (fsub F t1 t0),
           fdiv F (fsub F (time st) t0) (fsub F t1 t0))"
    if "(\<forall>t\<in>set (pre @ [t0]). \<not> fless F (time st) t) \<and> fless F (time st) t1"
    using that by (intro factors_between) simp_all
  show "case get_interpolation_factors F st tw of
          (index0, index1, fac0, fac1) \<Rightarrow>
            0 \<le> index0 \<and> index0 \<le> index1 \<and> index1 \<le> index0 + 1 \<and>
            index1 < int (length tw)"
    if "tw \<noteq> []"
    using that by (rule factors_indices_in_range)
  show "case get_interpolation_factors exact sq tq of
          (index0, index1, fac0, fac1) \<Rightarrow>
            fac0 + fac1 = 1 \<and> 0 \<le> fac0 \<and> 0 \<le> fac1 \<and>
            fac0 * tq ! nat index0 + fac1 * tq ! nat index1 =
              (if time sq < hd tq then hd tq
               else if \<forall>t\<in>set tq. t \<le> time sq then last tq
               else time sq)"
    if "tq \<noteq> []"
    using that by (rule exact_factors_interpolate)
  show "get_interpolation_factors exact (demo\<lparr>time := 5\<rparr>) [10, 20, 30] = (0, 0, 0, 1)"
    by (simp add: get_interpolation_factors_def exact_def)
  show "get_interpolation_factors exact (demo\<lparr>time := 25\<rparr>) [10, 20, 30] =
          (1, 2, (30 - 25) / (30 - 20), (25 - 20) / (30 - 20))"
    by (simp add: get_interpolation_factors_def exact_def)
  show "(30 - 25) / (30 - 20) + (25 - 20) / (30 - 20) = (1 :: rat)"
    by simp
  show "get_interpolation_factors exact (demo\<lparr>time := 35\<rparr>) [10, 20, 30] = (2, 2, 1, 0)"
    by (simp add: get_interpolation_factors_def exact_def)
qed

text \<open>
  The reference times 10, 20, 30 at the times 5, 35 and 22; at 22 the nearer reference
  time, 20, has the larger weight.
\<close>

theorem interpolation_factors_clamped_witness:
  "fless exact (time (demo\<lparr>time := 5\<rparr>)) 10 \<and>
   get_interpolation_factors exact (demo\<lparr>time := 5\<rparr>) [10, 20, 30] = (0, 0, 0, 1) \<and>
   \<not> fless exact (time (demo\<lparr>time := 35\<rparr>)) 10 \<and>
   \<not> fless exact (time (demo\<lparr>time := 35\<rparr>)) 20 \<and>
   \<not> fless exact (time (demo\<lparr>time := 35\<rparr>)) 30 \<and>
   get_interpolation_factors exact (demo\<lparr>time := 35\<rparr>) [10, 20, 30] = (2, 2, 1, 0) \<and>
   \<not> fless exact (time (demo\<lparr>time := 22\<rparr>)) 10 \<and>
   \<not> fless exact (time (demo\<lparr>time := 22\<rparr>)) 20 \<and>
   fless exact (time (demo\<lparr>time := 22\<rparr>)) 30 \<and>
   get_interpolation_factors exact (demo\<lparr>time := 22\<rparr>) [10, 20, 30] = (1, 2, 4 / 5, 1 / 5) \<and>
   (4 / 5 :: rat) + 1 / 5 = 1 \<and> (4 / 5 :: rat) * 20 + 1 / 5 * 30 = 22"
  using interpolation_factors_clamped [where F = exact and st = "demo\<lparr>time := 5\<rparr>"
      and t = 10 and ts = "[20, 30]"]
    interpolation_factors_clamped [where F = exact and st = "demo\<lparr>time := 35\<rparr>"
      and tv = "[10, 20, 30]"]
    interpolation_factors_clamped [where F = exact and st = "demo\<lparr>time := 22\<rparr>"
      and pre = "[10]" and ?t0.0 = 20 and ?t1.0 = 30 and post = "[]"
      and sq = "demo\<lparr>time := 22\<rparr>" and tq = "[10, 20, 30]"]
  by (simp add: exact_sel)

subsection \<open>The checkpoint\<close>

lemma bit_fread_le:
  "bit (fread_le bs :: 'a::len word) k \<longleftrightarrow>
     k < LENGTH('a) \<and> k div 8 < length bs \<and> bit (bs ! (k div 8)) (k mod 8)"
  using bit_horner_sum_uint_exp_iff [where ?'a = 8, of bs k]
  by (simp add: fread_le_def bit_word_of_int_iff)

lemma fread_fwrite:
  assumes "LENGTH('a::len) \<le> 8 * n"
  shows "fread_le (fwrite_le n w) = (w :: 'a word)"
proof (rule bit_word_eqI)
  fix k
  assume k: "k < LENGTH('a)"
  then have "k div 8 < n"
    using assms by auto
  then show "bit (fread_le (fwrite_le n w) :: 'a word) k = bit w k"
    using k by (simp add: bit_fread_le fwrite_le_def bit_simps)
qed

lemma length_fwrite_le [simp]: "length (fwrite_le n w) = n"
  by (simp add: fwrite_le_def)

lemma fread_fwrite_append:
  "LENGTH('a::len) \<le> 8 * n \<Longrightarrow>
   fread n (fwrite_le n (w :: 'a word) @ rest) = (Read w, rest)"
  by (simp add: fread_def fread_fwrite)

lemma fread_fwrite_all:
  "LENGTH('a::len) \<le> 8 * n \<Longrightarrow> fread n (fwrite_le n (w :: 'a word)) = (Read w, [])"
  using fread_fwrite_append [of n w "[]"] by simp

text \<open>
  C8. On the coordinator, with no file of the checkpoint's name yet, \<open>save(t)\<close> returns,
  and \<open>load(t)\<close> after it, in the same or in a freshly constructed object, returns with
  the \<open>itime\<close>, \<open>idt\<close> and \<open>iteration\<close> that were saved, and with
  \<open>time = (double)itime / ifactor\<close> and \<open>dt = (double)idt / ifactor\<close> as the machine
  computes these quotients; nothing else of the loading object changes.
\<close>

theorem save_load_roundtrip:
  assumes "mpiid m = 0" and "fs (filename t) = None"
  shows "\<exists>fs' st'. save m msg t (fs, st) = Inr (fs', st) \<and>
           load F m msg' t (fs', st0) = Inr (fs', st') \<and>
           itime st' = itime st \<and> idt st' = idt st \<and> iteration st' = iteration st \<and>
           time st' = fdiv F (of_ulong F (itime st')) (ifactor st') \<and>
           dt st' = fdiv F (of_ulong F (idt st')) (ifactor st') \<and>
           st' = st0\<lparr>itime := itime st, idt := idt st, iteration := iteration st,
                     time := fdiv F (of_ulong F (itime st)) (ifactor st0),
                     dt := fdiv F (of_ulong F (idt st)) (ifactor st0)\<rparr>"
proof -
  let ?bytes = "fwrite_le 8 (itime st) @ fwrite_le 8 (idt st) @ fwrite_le 4 (iteration st)"
  let ?fs = "fs(filename t \<mapsto> ?bytes)"
  have s: "save m msg t (fs, st) = Inr (?fs, st)"
    using assms by (simp add: save_def broadcast_def)
  have l: "load F m msg' t (?fs, st0) =
             Inr (?fs, st0\<lparr>itime := itime st, idt := idt st, iteration := iteration st,
                     time := fdiv F (of_ulong F (itime st)) (ifactor st0),
                     dt := fdiv F (of_ulong F (idt st)) (ifactor st0)\<rparr>)"
    using assms(1)
    by (simp add: load_def broadcast_def fread_fwrite_append fread_fwrite_all Let_def)
  show ?thesis
    using s l by simp
qed

text \<open>The state at the first save time, 5 s, written as 20 bytes and read into a new object.\<close>

theorem save_load_roundtrip_witness:
  "mpiid rank0 = 0 \<and> Map.empty (filename 0) = (None :: byte list option) \<and>
   save rank0 no_msg 0 (Map.empty, demo\<lparr>itime := 5000000000, iteration := 5\<rparr>) =
     Inr ([filename 0 \<mapsto> [0, 242, 5, 42, 1, 0, 0, 0, 0, 202, 154, 59, 0, 0, 0, 0, 5, 0, 0, 0]],
          demo\<lparr>itime := 5000000000, iteration := 5\<rparr>) \<and>
   load exact rank0 no_msg 0
       ([filename 0 \<mapsto> [0, 242, 5, 42, 1, 0, 0, 0, 0, 202, 154, 59, 0, 0, 0, 0, 5, 0, 0, 0]],
        demo) =
     Inr ([filename 0 \<mapsto> [0, 242, 5, 42, 1, 0, 0, 0, 0, 202, 154, 59, 0, 0, 0, 0, 5, 0, 0, 0]],
          demo\<lparr>itime := 5000000000, iteration := 5, time := 5\<rparr>)"
proof -
  have c: "mpiid rank0 = 0"
    by (simp add: rank0_def)
  have b: "fwrite_le 8 (5000000000 :: ulong) @ fwrite_le 8 (1000000000 :: ulong) @
             fwrite_le 4 (5 :: cint) =
           [0, 242, 5, 42, 1, 0, 0, 0, 0, 202, 154, 59, 0, 0, 0, 0, 5, 0, 0, 0]"
    by (simp add: fwrite_le_def upt_rec drop_bit_eq_div)
  have s: "save rank0 no_msg 0 (Map.empty, demo\<lparr>itime := 5000000000, iteration := 5\<rparr>) =
     Inr ([filename 0 \<mapsto> [0, 242, 5, 42, 1, 0, 0, 0, 0, 202, 154, 59, 0, 0, 0, 0, 5, 0, 0, 0]],
          demo\<lparr>itime := 5000000000, iteration := 5\<rparr>)"
    using b by (simp add: save_def broadcast_def rank0_def demo_def)
  show ?thesis
    using save_load_roundtrip [where m = rank0 and fs = Map.empty and t = 0
        and st = "demo\<lparr>itime := 5000000000, iteration := 5\<rparr>" and F = exact
        and ?st0.0 = demo and msg = no_msg and msg' = no_msg]
      c s
    by (simp add: demo_def exact_def)
qed

text \<open>
  Every other process takes part in the two calls through the broadcasts only: it
  throws when the coordinator does, and else holds after \<open>load\<close> what the coordinator
  read.
\<close>

lemma load_on_other_rank:
  assumes "mpiid m \<noteq> 0"
  shows "load F m msg t (fs, st) =
           (if root_nerror msg \<noteq> 0 then Inl (Thrown (fs, st))
            else Inr (fs, st\<lparr>itime := root_itime msg, idt := root_idt msg,
                              iteration := root_iteration msg,
                              time := fdiv F (of_ulong F (root_itime msg)) (ifactor st),
                              dt := fdiv F (of_ulong F (root_idt msg)) (ifactor st)\<rparr>))"
  using assms by (simp add: load_def broadcast_def Let_def)

lemma save_on_other_rank:
  assumes "mpiid m \<noteq> 0"
  shows "save m msg t (fs, st) =
           (if root_nerror msg \<noteq> 0 then Inl (Thrown (fs, st)) else Inr (fs, st))"
  using assms by (simp add: save_def broadcast_def)

text \<open>
  C9. On the coordinator, \<open>save\<close> throws when the file of the checkpoint's name
  exists, and \<open>load\<close> throws when it does not; at either throw the files and the time
  state are what they were before the call.
\<close>

theorem checkpoint_failures:
  assumes "mpiid m = 0"
  shows "(fs (filename t) \<noteq> None \<longrightarrow> save m msg t (fs, st) = Inl (Thrown (fs, st))) \<and>
         (fs (filename t) = None \<longrightarrow> load F m msg t (fs, st) = Inl (Thrown (fs, st)))"
  using assms by (auto simp add: save_def load_def broadcast_def)

text \<open>A directory that holds \<open>time.0000000\<close> and not \<open>time.0000007\<close>.\<close>

theorem checkpoint_failures_witness:
  "mpiid rank0 = 0 \<and> [filename 0 \<mapsto> []] (filename 0) \<noteq> None \<and>
   save rank0 no_msg 0 ([filename 0 \<mapsto> []], demo) =
     Inl (Thrown ([filename 0 \<mapsto> []], demo)) \<and>
   [filename 0 \<mapsto> ([] :: byte list)] (filename 7) = None \<and>
   load exact rank0 no_msg 7 ([filename 0 \<mapsto> []], demo) =
     Inl (Thrown ([filename 0 \<mapsto> []], demo))"
proof -
  have c: "mpiid rank0 = 0"
    by (simp add: rank0_def)
  have n: "filename 7 \<noteq> filename 0"
    by code_simp
  show ?thesis
    using checkpoint_failures [OF c, where fs = "[filename 0 \<mapsto> []]" and t = 0
        and st = demo and F = exact and msg = no_msg]
      checkpoint_failures [OF c, where fs = "[filename 0 \<mapsto> []]" and t = 7
        and st = demo and F = exact and msg = no_msg] c n
    by simp
qed

end
